theory Spec2Isabelle
  imports Main "HOL-Library.Word" "HOL-Library.Finite_Map"
begin

section \<open>The MERC-20 token ledger (erc20.compact)\<close>

text \<open>
  A shallow embedding of the Compact contract \<^verbatim>\<open>erc20.compact\<close> and of the
  simulator \<^verbatim>\<open>merc20-simulator.ts\<close> that drives it.

  \<^item> \<^verbatim>\<open>Uint<222>\<close> is a 222-bit word, \<^verbatim>\<open>Uint<8>\<close> an 8-bit word. Compact's \<open>+\<close> on
    unsigned integers does not wrap: the sum has a wider type, and the cast
    \<^verbatim>\<open>as Uint<222>\<close> fails at run time when the sum does not fit. The model
    writes that check out on the \<open>unat\<close> values.
  \<^item> \<^verbatim>\<open>Bytes<32>\<close> is a list of bytes.
  \<^item> \<^verbatim>\<open>Map<K, V>\<close> is a finite map; \<^verbatim>\<open>member\<close> is a lookup that is not \<open>None\<close>,
    \<^verbatim>\<open>insert\<close> is \<open>fmupd\<close>.
  \<^item> A circuit runs as one transaction. A failed \<^verbatim>\<open>assert\<close> or cast aborts it: the
    outcome of a call is an error or the new ledger. The writes made before a
    failure are kept by \<open>transfer_exec\<close> and \<open>transferFrom_exec\<close>, which run the
    statements in place.
  \<^item> \<^verbatim>\<open>persistent_hash\<close> belongs to the Compact standard library. It is a
    parameter \<open>H\<close> of every circuit that derives the caller's address.
\<close>

subsection \<open>Data model\<close>

type_synonym bytes = "8 word list"
type_synonym uint222 = "222 word"
type_synonym uint8 = "8 word"

record Ledger =
  tokenName :: string
  tokenSymbol :: string
  tokenDecimals :: uint8
  totalSupply :: uint222
  balances :: "(bytes, uint222) fmap"
  allowances :: "(bytes, (bytes, uint222) fmap) fmap"

text \<open>
  The failures of a circuit: the three assertion messages of the source
  (\<^verbatim>\<open>"Insufficient balance"\<close>, \<^verbatim>\<open>"No allowance set"\<close>, \<^verbatim>\<open>"Insufficient allowance"\<close>),
  the failed cast to \<^verbatim>\<open>Uint<222>\<close>, and a \<^verbatim>\<open>lookup\<close> of a key that is not in the map.
\<close>

datatype error =
    InsufficientBalance
  | NoAllowanceSet
  | InsufficientAllowance
  | ArithmeticOverflow
  | LookupAbsentKey

text \<open>The ledger before the constructor runs: every field has its default value.\<close>

definition default_ledger :: Ledger where
  "default_ledger =
     \<lparr>tokenName = [], tokenSymbol = [], tokenDecimals = 0, totalSupply = 0,
      balances = fmempty, allowances = fmempty\<rparr>"

subsection \<open>Constructor\<close>

definition constructor :: "uint222 \<Rightarrow> bytes \<Rightarrow> string \<Rightarrow> string \<Rightarrow> uint8 \<Rightarrow> Ledger" where
  "constructor initial_supply mint_address name symbol decimals =
     default_ledger
       \<lparr>balances := fmupd mint_address initial_supply (balances default_ledger),
        totalSupply := initial_supply,
        tokenName := name,
        tokenSymbol := symbol,
        tokenDecimals := decimals\<rparr>"

subsection \<open>Caller address\<close>

text \<open>\<^verbatim>\<open>pad(n, s)\<close>: the bytes of \<open>s\<close>, filled with zero bytes up to length \<open>n\<close>.\<close>

definition pad :: "nat \<Rightarrow> string \<Rightarrow> bytes" where
  "pad n s = map (\<lambda>c. of_nat (of_char c)) s @ replicate (n - length s) 0"

definition compute_address :: "(bytes list \<Rightarrow> bytes) \<Rightarrow> bytes \<Rightarrow> bytes" where
  "compute_address H sk = H [pad 32 ''merc20:sk'', sk]"

subsection \<open>Read circuits\<close>

definition getTotalSupply :: "Ledger \<Rightarrow> uint222" where
  "getTotalSupply L = totalSupply L"

definition balanceOf :: "Ledger \<Rightarrow> bytes \<Rightarrow> uint222" where
  "balanceOf L owner = (case fmlookup (balances L) owner of Some v \<Rightarrow> v | None \<Rightarrow> 0)"

definition allowance :: "Ledger \<Rightarrow> bytes \<Rightarrow> bytes \<Rightarrow> uint222" where
  "allowance L owner spender =
     (case fmlookup (allowances L) owner of
        Some inner \<Rightarrow> (case fmlookup inner spender of Some v \<Rightarrow> v | None \<Rightarrow> 0)
      | None \<Rightarrow> 0)"

subsection \<open>Mutating circuits\<close>

text \<open>
  Each mutating circuit takes the secret key that the witness \<^verbatim>\<open>get_secret_key\<close>
  returns for the call. The statements of the source run in order on the ledger;
  the subtraction \<open>from_balance - amount\<close> comes after the assertion
  \<open>from_balance \<ge> amount\<close>, so it never goes below 0.
\<close>

definition transfer ::
  "(bytes list \<Rightarrow> bytes) \<Rightarrow> Ledger \<Rightarrow> bytes \<Rightarrow> bytes \<Rightarrow> uint222 \<Rightarrow> error + Ledger" where
  "transfer H L sk to amount =
     (let from = compute_address H sk;
          from_balance = (case fmlookup (balances L) from of Some v \<Rightarrow> v | None \<Rightarrow> 0)
      in if \<not> from_balance \<ge> amount then Inl InsufficientBalance
         else
           let L1 = L\<lparr>balances := fmupd from (from_balance - amount) (balances L)\<rparr>;
               to_balance = (case fmlookup (balances L1) to of Some v \<Rightarrow> v | None \<Rightarrow> 0)
           in if \<not> unat to_balance + unat amount < 2 ^ 222 then Inl ArithmeticOverflow
              else Inr (L1\<lparr>balances := fmupd to (to_balance + amount) (balances L1)\<rparr>))"

definition approve ::
  "(bytes list \<Rightarrow> bytes) \<Rightarrow> Ledger \<Rightarrow> bytes \<Rightarrow> bytes \<Rightarrow> uint222 \<Rightarrow> error + Ledger" where
  "approve H L sk spender amount =
     (let owner = compute_address H sk;
          L1 = (if fmlookup (allowances L) owner = None
                then L\<lparr>allowances := fmupd owner fmempty (allowances L)\<rparr>
                else L)
      in case fmlookup (allowances L1) owner of
           None \<Rightarrow> Inl LookupAbsentKey
         | Some inner \<Rightarrow>
             Inr (L1\<lparr>allowances := fmupd owner (fmupd spender amount inner) (allowances L1)\<rparr>))"

definition transferFrom ::
  "(bytes list \<Rightarrow> bytes) \<Rightarrow> Ledger \<Rightarrow> bytes \<Rightarrow> bytes \<Rightarrow> bytes \<Rightarrow> uint222 \<Rightarrow> error + Ledger" where
  "transferFrom H L sk from to amount =
     (let spender = compute_address H sk
      in case fmlookup (allowances L) from of
           None \<Rightarrow> Inl NoAllowanceSet
         | Some inner \<Rightarrow>
            (case fmlookup inner spender of
               None \<Rightarrow> Inl NoAllowanceSet
             | Some allowance' \<Rightarrow>
                 if \<not> allowance' \<ge> amount then Inl InsufficientAllowance
                 else
                   let from_balance =
                         (case fmlookup (balances L) from of Some v \<Rightarrow> v | None \<Rightarrow> 0)
                   in if \<not> from_balance \<ge> amount then Inl InsufficientBalance
                      else if \<not> from_balance \<ge> amount then Inl InsufficientBalance
                      else
                        let L1 = L\<lparr>allowances :=
                                    fmupd from (fmupd spender (allowance' - amount) inner)
                                      (allowances L)\<rparr>;
                            L2 = L1\<lparr>balances :=
                                     fmupd from (from_balance - amount) (balances L1)\<rparr>;
                            to_balance =
                              (case fmlookup (balances L2) to of Some v \<Rightarrow> v | None \<Rightarrow> 0)
                        in if \<not> unat to_balance + unat amount < 2 ^ 222
                           then Inl ArithmeticOverflow
                           else Inr (L2\<lparr>balances :=
                                          fmupd to (to_balance + amount) (balances L2)\<rparr>)))"

subsection \<open>The circuits run in place\<close>



subsection \<open>Sequences of calls\<close>

text \<open>
  A call is a circuit with its arguments, made with the caller's secret key.
  \<open>run\<close> applies a list of calls in order and stops at the first failure, so
  \<open>run H L cs = Inr L'\<close> says that every call of \<open>cs\<close> succeeded.
\<close>

datatype call =
    Transfer bytes uint222
  | Approve bytes uint222
  | TransferFrom bytes bytes uint222

fun apply_call :: "(bytes list \<Rightarrow> bytes) \<Rightarrow> Ledger \<Rightarrow> bytes \<times> call \<Rightarrow> error + Ledger" where
  "apply_call H L (sk, Transfer to amount) = transfer H L sk to amount"
| "apply_call H L (sk, Approve spender amount) = approve H L sk spender amount"
| "apply_call H L (sk, TransferFrom from to amount) = transferFrom H L sk from to amount"

fun run :: "(bytes list \<Rightarrow> bytes) \<Rightarrow> Ledger \<Rightarrow> (bytes \<times> call) list \<Rightarrow> error + Ledger" where
  "run H L [] = Inr L"
| "run H L (c # cs) =
     (case apply_call H L c of Inl e \<Rightarrow> Inl e | Inr L' \<Rightarrow> run H L' cs)"

text \<open>The sum of all values of the balances map.\<close>

definition balance_at :: "(bytes, uint222) fmap \<Rightarrow> bytes \<Rightarrow> nat" where
  "balance_at m k = (case fmlookup m k of Some v \<Rightarrow> unat v | None \<Rightarrow> 0)"

definition sum_values :: "(bytes, uint222) fmap \<Rightarrow> nat" where
  "sum_values m = (\<Sum>k \<in> fset (fmdom m). balance_at m k)"

definition sum_balances :: "Ledger \<Rightarrow> nat" where
  "sum_balances L = sum_values (balances L)"

text \<open>
  The stored allowance entry of an owner and a spender: \<open>None\<close> when the outer map
  has no entry for the owner or the inner map has none for the spender.
\<close>

definition allowance_entry :: "Ledger \<Rightarrow> bytes \<Rightarrow> bytes \<Rightarrow> uint222 option" where
  "allowance_entry L owner spender =
     (case fmlookup (allowances L) owner of
        None \<Rightarrow> None
      | Some inner \<Rightarrow> fmlookup inner spender)"

text \<open>Whether a call is an approve for \<open>spender\<close> made by the owner's address.\<close>

fun approves :: "(bytes list \<Rightarrow> bytes) \<Rightarrow> bytes \<Rightarrow> bytes \<Rightarrow> bytes \<times> call \<Rightarrow> bool" where
  "approves H owner spender (sk, Approve sp amount) =
     (compute_address H sk = owner \<and> sp = spender)"
| "approves H owner spender (sk, Transfer to amount) = False"
| "approves H owner spender (sk, TransferFrom from to amount) = False"

subsection \<open>The simulator\<close>

text \<open>
  \<^verbatim>\<open>MERC20Simulator\<close> holds the circuit context: the private state (the secret key)
  and the ledger. Each of its mutating methods runs the circuit and assigns the
  context that the circuit returns. When the circuit throws, the assignment does
  not happen and the exception leaves the method: the simulator is as before.
  A method returns its outcome together with the simulator after the call.
  The mint address is taken as bytes (the source decodes it from a hex string).
\<close>

record MERC20Simulator =
  secretKey :: bytes
  ledger :: Ledger

definition new_simulator ::
  "uint222 \<Rightarrow> bytes \<Rightarrow> string \<Rightarrow> string \<Rightarrow> uint8 \<Rightarrow> bytes option \<Rightarrow> MERC20Simulator" where
  "new_simulator initialSupply mintAddress name symbol decimals deployerSk =
     \<lparr>secretKey = (case deployerSk of Some sk \<Rightarrow> sk | None \<Rightarrow> []),
      ledger = constructor initialSupply mintAddress name symbol decimals\<rparr>"

definition setSk :: "MERC20Simulator \<Rightarrow> bytes \<Rightarrow> MERC20Simulator" where
  "setSk S sk = S\<lparr>secretKey := sk\<rparr>"

definition getLedger :: "MERC20Simulator \<Rightarrow> Ledger" where
  "getLedger S = ledger S"


definition sim_approve ::
  "(bytes list \<Rightarrow> bytes) \<Rightarrow> MERC20Simulator \<Rightarrow> bytes \<Rightarrow> uint222
     \<Rightarrow> (error + Ledger) \<times> MERC20Simulator" where
  "sim_approve H S spender amount =
     (case approve H (ledger S) (secretKey S) spender amount of
        Inl e \<Rightarrow> (Inl e, S)
      | Inr L' \<Rightarrow> (Inr (getLedger (S\<lparr>ledger := L'\<rparr>)), S\<lparr>ledger := L'\<rparr>))"


definition sim_balanceOf :: "MERC20Simulator \<Rightarrow> bytes \<Rightarrow> uint222" where
  "sim_balanceOf S address =
     (case fmlookup (balances (getLedger S)) address of Some v \<Rightarrow> v | None \<Rightarrow> 0)"

definition sim_allowance :: "MERC20Simulator \<Rightarrow> bytes \<Rightarrow> bytes \<Rightarrow> uint222" where
  "sim_allowance S owner spender =
     (case fmlookup (allowances (getLedger S)) owner of
        Some ownerAllowances \<Rightarrow>
          (case fmlookup ownerAllowances spender of Some v \<Rightarrow> v | None \<Rightarrow> 0)
      | None \<Rightarrow> 0)"

subsection \<open>Test fixtures\<close>

text \<open>
  Three addresses for the concrete runs below. With \<open>last\<close> for the hash, the
  address of a secret key is the key itself.
\<close>

abbreviation (input) deployer :: bytes where "deployer \<equiv> replicate 32 1"
abbreviation (input) spender0 :: bytes where "spender0 \<equiv> replicate 32 2"
abbreviation (input) recipient :: bytes where "recipient \<equiv> replicate 32 3"

section \<open>Sums over the balances map\<close>

lemma balance_at_upd:
  "balance_at (fmupd k v m) k' = (if k = k' then unat v else balance_at m k')"
  by (simp add: balance_at_def)

lemma sum_values_upd:
  "sum_values (fmupd k v m) + balance_at m k = sum_values m + unat v"
proof (cases "k |\<in>| fmdom m")
  case True
  have a: "sum_values m = balance_at m k + (\<Sum>k' \<in> fset (fmdom m) - {k}. balance_at m k')"
    using True by (simp add: sum_values_def sum.remove)
  have b: "sum_values (fmupd k v m)
     = unat v + (\<Sum>k' \<in> fset (fmdom m) - {k}. balance_at (fmupd k v m) k')"
    by (simp add: sum_values_def sum.insert_remove balance_at_upd)
  have c: "(\<Sum>k' \<in> fset (fmdom m) - {k}. balance_at (fmupd k v m) k')
     = (\<Sum>k' \<in> fset (fmdom m) - {k}. balance_at m k')"
    by (rule sum.cong) (auto simp: balance_at_upd)
  show ?thesis using a b c by simp
next
  case False
  then have z: "balance_at m k = 0" by (auto simp: balance_at_def fmdom_notD)
  have b: "sum_values (fmupd k v m)
     = unat v + (\<Sum>k' \<in> fset (fmdom m). balance_at (fmupd k v m) k')"
    using False by (simp add: sum_values_def balance_at_upd)
  have c: "(\<Sum>k' \<in> fset (fmdom m). balance_at (fmupd k v m) k') = sum_values m"
    unfolding sum_values_def using False by (intro sum.cong) (auto simp: balance_at_upd)
  show ?thesis using z b c by simp
qed

lemma balance_at_le_sum: "balance_at m k \<le> sum_values m"
proof (cases "k |\<in>| fmdom m")
  case True
  then have "sum_values m = balance_at m k + (\<Sum>k' \<in> fset (fmdom m) - {k}. balance_at m k')"
    by (simp add: sum_values_def sum.remove)
  then show ?thesis by simp
next
  case False
  then show ?thesis by (auto simp: balance_at_def fmdom_notD)
qed

lemma unat_balanceOf: "unat (balanceOf L a) = balance_at (balances L) a"
  by (simp add: balanceOf_def balance_at_def split: option.splits)

lemma unat_lookup_default:
  "unat (case fmlookup m k of Some v \<Rightarrow> v | None \<Rightarrow> 0) = balance_at m k"
  by (simp add: balance_at_def split: option.splits)

text \<open>A debit of \<open>from\<close> followed by a credit of \<open>to\<close>, as both transfers do.\<close>

lemma debit_credit_sum:
  assumes ge: "amount \<le> (case fmlookup m from of Some v \<Rightarrow> v | None \<Rightarrow> 0)"
    and m1: "m1 = fmupd from ((case fmlookup m from of Some v \<Rightarrow> v | None \<Rightarrow> 0) - amount) m"
    and fits: "unat (case fmlookup m1 to of Some v \<Rightarrow> v | None \<Rightarrow> 0) + unat amount < 2 ^ 222"
  shows "sum_values (fmupd to ((case fmlookup m1 to of Some v \<Rightarrow> v | None \<Rightarrow> 0) + amount) m1)
         = sum_values m"
proof -
  let ?fb = "case fmlookup m from of Some v \<Rightarrow> v | None \<Rightarrow> 0"
  let ?tb = "case fmlookup m1 to of Some v \<Rightarrow> v | None \<Rightarrow> 0"
  have s1: "sum_values m1 + balance_at m from = sum_values m + unat (?fb - amount)"
    unfolding m1 by (rule sum_values_upd)
  have fb: "unat (?fb - amount) = balance_at m from - unat amount"
    using ge by (simp add: unat_sub unat_lookup_default)
  have le: "unat amount \<le> balance_at m from"
    using ge by (simp add: word_le_nat_alt unat_lookup_default)
  have s2: "sum_values (fmupd to (?tb + amount) m1) + balance_at m1 to
            = sum_values m1 + unat (?tb + amount)"
    by (rule sum_values_upd)
  have tb: "unat (?tb + amount) = balance_at m1 to + unat amount"
    using fits by (simp add: unat_add_lem [THEN iffD1] unat_lookup_default)
  show ?thesis using s1 fb le s2 tb by linarith
qed

lemma debit_credit_fits:
  assumes ge: "amount \<le> (case fmlookup m from of Some v \<Rightarrow> v | None \<Rightarrow> 0)"
    and m1: "m1 = fmupd from ((case fmlookup m from of Some v \<Rightarrow> v | None \<Rightarrow> 0) - amount) m"
  shows "unat (case fmlookup m1 to of Some v \<Rightarrow> v | None \<Rightarrow> 0) + unat amount \<le> sum_values m"
proof -
  let ?fb = "case fmlookup m from of Some v \<Rightarrow> v | None \<Rightarrow> 0"
  have s1: "sum_values m1 + balance_at m from = sum_values m + unat (?fb - amount)"
    unfolding m1 by (rule sum_values_upd)
  have fb: "unat (?fb - amount) = balance_at m from - unat amount"
    using ge by (simp add: unat_sub unat_lookup_default)
  have le: "unat amount \<le> balance_at m from"
    using ge by (simp add: word_le_nat_alt unat_lookup_default)
  have "balance_at m1 to \<le> sum_values m1" by (rule balance_at_le_sum)
  then show ?thesis using s1 fb le by (simp add: unat_lookup_default)
qed

section \<open>Effects of the circuits\<close>

lemma transfer_Inr:
  assumes "transfer H L sk to amount = Inr L'"
  defines "from \<equiv> compute_address H sk"
  defines "m1 \<equiv> fmupd from
      ((case fmlookup (balances L) from of Some v \<Rightarrow> v | None \<Rightarrow> 0) - amount) (balances L)"
  shows "amount \<le> (case fmlookup (balances L) from of Some v \<Rightarrow> v | None \<Rightarrow> 0)"
    and "unat (case fmlookup m1 to of Some v \<Rightarrow> v | None \<Rightarrow> 0) + unat amount < 2 ^ 222"
    and "L' = L\<lparr>balances :=
            fmupd to ((case fmlookup m1 to of Some v \<Rightarrow> v | None \<Rightarrow> 0) + amount) m1\<rparr>"
  using assms(1) unfolding from_def m1_def
  by (auto simp del: fmupd_lookup simp: transfer_def Let_def split: if_splits)

lemma transferFrom_Inr:
  assumes "transferFrom H L sk from to amount = Inr L'"
  defines "spender \<equiv> compute_address H sk"
  defines "m1 \<equiv> fmupd from
      ((case fmlookup (balances L) from of Some v \<Rightarrow> v | None \<Rightarrow> 0) - amount) (balances L)"
  obtains inner a where
    "fmlookup (allowances L) from = Some inner"
    "fmlookup inner spender = Some a"
    "amount \<le> a"
    "amount \<le> (case fmlookup (balances L) from of Some v \<Rightarrow> v | None \<Rightarrow> 0)"
    "unat (case fmlookup m1 to of Some v \<Rightarrow> v | None \<Rightarrow> 0) + unat amount < 2 ^ 222"
    "L' = L\<lparr>allowances := fmupd from (fmupd spender (a - amount) inner) (allowances L),
            balances :=
              fmupd to ((case fmlookup m1 to of Some v \<Rightarrow> v | None \<Rightarrow> 0) + amount) m1\<rparr>"
  using assms(1) unfolding spender_def m1_def
  by (auto simp del: fmupd_lookup simp: transferFrom_def Let_def
      split: if_splits option.splits)

lemma transfer_conserves:
  assumes "transfer H L sk to amount = Inr L'"
  shows "sum_balances L' = sum_balances L"
    and "totalSupply L' = totalSupply L"
    and "allowances L' = allowances L"
    and "tokenName L' = tokenName L"
    and "tokenSymbol L' = tokenSymbol L"
    and "tokenDecimals L' = tokenDecimals L"
proof -
  note r = transfer_Inr [OF assms]
  have "sum_values (balances L') = sum_values (balances L)"
    by (subst r(3)) (simp del: fmupd_lookup add: debit_credit_sum [OF r(1) refl r(2)])
  then show "sum_balances L' = sum_balances L"
    by (simp add: sum_balances_def)
  show "totalSupply L' = totalSupply L" "allowances L' = allowances L"
    "tokenName L' = tokenName L" "tokenSymbol L' = tokenSymbol L"
    "tokenDecimals L' = tokenDecimals L"
    by (simp_all add: r(3))
qed

lemma transferFrom_conserves:
  assumes "transferFrom H L sk from to amount = Inr L'"
  shows "sum_balances L' = sum_balances L"
    and "totalSupply L' = totalSupply L"
    and "tokenName L' = tokenName L"
    and "tokenSymbol L' = tokenSymbol L"
    and "tokenDecimals L' = tokenDecimals L"
proof -
  from assms obtain inner a where
    ge: "amount \<le> (case fmlookup (balances L) from of Some v \<Rightarrow> v | None \<Rightarrow> 0)"
    and fits: "unat (case fmlookup (fmupd from
        ((case fmlookup (balances L) from of Some v \<Rightarrow> v | None \<Rightarrow> 0) - amount) (balances L)) to
        of Some v \<Rightarrow> v | None \<Rightarrow> 0) + unat amount < 2 ^ 222"
    and L': "L' = L\<lparr>allowances :=
              fmupd from (fmupd (compute_address H sk) (a - amount) inner) (allowances L),
            balances :=
              fmupd to ((case fmlookup (fmupd from
        ((case fmlookup (balances L) from of Some v \<Rightarrow> v | None \<Rightarrow> 0) - amount) (balances L)) to
        of Some v \<Rightarrow> v | None \<Rightarrow> 0) + amount) (fmupd from
        ((case fmlookup (balances L) from of Some v \<Rightarrow> v | None \<Rightarrow> 0) - amount) (balances L))\<rparr>"
    by (rule transferFrom_Inr)
  have "sum_values (balances L') = sum_values (balances L)"
    by (subst L') (simp del: fmupd_lookup add: debit_credit_sum [OF ge refl fits])
  then show "sum_balances L' = sum_balances L"
    by (simp add: sum_balances_def)
  show "totalSupply L' = totalSupply L"
    "tokenName L' = tokenName L" "tokenSymbol L' = tokenSymbol L"
    "tokenDecimals L' = tokenDecimals L"
    by (simp_all add: L')
qed

lemma approve_conserves:
  assumes "approve H L sk spender amount = Inr L'"
  shows "balances L' = balances L"
    and "totalSupply L' = totalSupply L"
    and "tokenName L' = tokenName L"
    and "tokenSymbol L' = tokenSymbol L"
    and "tokenDecimals L' = tokenDecimals L"
  using assms
  by (auto simp: approve_def Let_def split: if_splits option.splits)

lemma apply_call_conserves:
  assumes "apply_call H L c = Inr L'"
  shows "sum_balances L' = sum_balances L \<and> totalSupply L' = totalSupply L"
proof (cases c)
  case (Pair sk op)
  show ?thesis
  proof (cases op)
    case (Transfer to amount)
    with Pair assms show ?thesis by (simp add: transfer_conserves)
  next
    case (Approve spender amount)
    with Pair assms show ?thesis by (simp add: approve_conserves sum_balances_def)
  next
    case (TransferFrom "from" to amount)
    with Pair assms show ?thesis by (simp add: transferFrom_conserves)
  qed
qed

lemma run_conserves:
  "run H L cs = Inr L' \<Longrightarrow> sum_balances L' = sum_balances L \<and> totalSupply L' = totalSupply L"
proof (induction cs arbitrary: L)
  case Nil
  then show ?case by simp
next
  case (Cons c cs)
  then obtain L1 where 1: "apply_call H L c = Inr L1" and 2: "run H L1 cs = Inr L'"
    by (auto split: sum.splits)
  from Cons.IH [OF 2] apply_call_conserves [OF 1] show ?case by simp
qed

lemma constructor_sum: "sum_balances (constructor s m n sy d) = unat (totalSupply (constructor s m n sy d))"
  by (simp add: sum_balances_def sum_values_def balance_at_def constructor_def default_ledger_def)

lemma transfer_no_overflow:
  assumes "sum_balances L \<le> unat (totalSupply L)"
  shows "transfer H L sk to amount \<noteq> Inl ArithmeticOverflow"
proof
  assume ov: "transfer H L sk to amount = Inl ArithmeticOverflow"
  let ?from = "compute_address H sk"
  let ?fb = "case fmlookup (balances L) ?from of Some v \<Rightarrow> v | None \<Rightarrow> 0"
  let ?m1 = "fmupd ?from (?fb - amount) (balances L)"
  have ge: "amount \<le> ?fb"
    using ov by (auto simp: transfer_def Let_def split: if_splits)
  have "\<not> unat (case fmlookup ?m1 to of Some v \<Rightarrow> v | None \<Rightarrow> 0) + unat amount < 2 ^ 222"
    using ov ge by (auto simp del: fmupd_lookup simp: transfer_def Let_def split: if_splits)
  moreover have "unat (case fmlookup ?m1 to of Some v \<Rightarrow> v | None \<Rightarrow> 0) + unat amount
      \<le> sum_values (balances L)"
    by (rule debit_credit_fits [OF ge refl])
  moreover have "unat (totalSupply L) < 2 ^ 222"
    using unsigned_less [of "totalSupply L"] by simp
  ultimately show False using assms by (simp add: sum_balances_def)
qed

lemma transferFrom_effect:
  assumes ok: "transferFrom H L sk from to amount = Inr L'"
  shows "unat (allowance L' from (compute_address H sk)) + unat amount
           = unat (allowance L from (compute_address H sk))"
    and "from \<noteq> to \<Longrightarrow> unat (balanceOf L' from) + unat amount = unat (balanceOf L from)"
    and "from \<noteq> to \<Longrightarrow> unat (balanceOf L' to) = unat (balanceOf L to) + unat amount"
    and "from = to \<Longrightarrow> balanceOf L' from = balanceOf L from"
    and "a \<noteq> from \<Longrightarrow> a \<noteq> to \<Longrightarrow> balanceOf L' a = balanceOf L a"
    and "(ow, sp) \<noteq> (from, compute_address H sk) \<Longrightarrow> allowance L' ow sp = allowance L ow sp"
proof -
  let ?fb = "case fmlookup (balances L) from of Some v \<Rightarrow> v | None \<Rightarrow> 0"
  let ?m1 = "fmupd from (?fb - amount) (balances L)"
  let ?tb = "case fmlookup ?m1 to of Some v \<Rightarrow> v | None \<Rightarrow> 0"
  from ok obtain inner a where
    inner: "fmlookup (allowances L) from = Some inner"
    and a: "fmlookup inner (compute_address H sk) = Some a"
    and le_a: "amount \<le> a"
    and ge: "amount \<le> ?fb"
    and fits: "unat ?tb + unat amount < 2 ^ 222"
    and L': "L' = L\<lparr>allowances :=
              fmupd from (fmupd (compute_address H sk) (a - amount) inner) (allowances L),
            balances := fmupd to (?tb + amount) ?m1\<rparr>"
    by (rule transferFrom_Inr)
  show "unat (allowance L' from (compute_address H sk)) + unat amount
           = unat (allowance L from (compute_address H sk))"
    using le_a by (simp add: L' allowance_def inner a unat_sub word_le_nat_alt)
  show "unat (balanceOf L' from) + unat amount = unat (balanceOf L from)" if "from \<noteq> to"
    using that ge by (simp add: L' balanceOf_def unat_sub word_le_nat_alt)
  show "unat (balanceOf L' to) = unat (balanceOf L to) + unat amount" if "from \<noteq> to"
    using that fits by (simp add: L' balanceOf_def unat_add_lem [THEN iffD1])
  show "balanceOf L' from = balanceOf L from" if "from = to"
    using that by (simp add: L' balanceOf_def)
  show "balanceOf L' a = balanceOf L a" if "a \<noteq> from" "a \<noteq> to" for a
    using that by (simp add: L' balanceOf_def)
  show "allowance L' ow sp = allowance L ow sp" if "(ow, sp) \<noteq> (from, compute_address H sk)"
    using that inner by (auto simp: L' allowance_def)
qed

lemma transfer_effect:
  assumes ok: "transfer H L sk to amount = Inr L'"
  shows "compute_address H sk \<noteq> to \<Longrightarrow>
           unat (balanceOf L' (compute_address H sk)) + unat amount
             = unat (balanceOf L (compute_address H sk))"
    and "compute_address H sk \<noteq> to \<Longrightarrow>
           unat (balanceOf L' to) = unat (balanceOf L to) + unat amount"
    and "compute_address H sk = to \<Longrightarrow> balanceOf L' to = balanceOf L to"
    and "a \<noteq> compute_address H sk \<Longrightarrow> a \<noteq> to \<Longrightarrow> balanceOf L' a = balanceOf L a"
proof -
  note r = transfer_Inr [OF ok]
  show "unat (balanceOf L' (compute_address H sk)) + unat amount
             = unat (balanceOf L (compute_address H sk))" if "compute_address H sk \<noteq> to"
    using that r(1) by (simp add: r(3) balanceOf_def unat_sub word_le_nat_alt)
  show "unat (balanceOf L' to) = unat (balanceOf L to) + unat amount"
    if "compute_address H sk \<noteq> to"
    using that r(2) by (simp add: r(3) balanceOf_def unat_add_lem [THEN iffD1])
  show "balanceOf L' to = balanceOf L to" if "compute_address H sk = to"
    using that by (simp add: r(3) balanceOf_def)
  show "balanceOf L' a = balanceOf L a" if "a \<noteq> compute_address H sk" "a \<noteq> to" for a
    using that by (simp add: r(3) balanceOf_def)
qed

lemma approve_effect:
  "\<exists>L'. approve H L sk spender amount = Inr L'
     \<and> allowance L' (compute_address H sk) spender = amount
     \<and> (\<forall>ow sp. (ow, sp) \<noteq> (compute_address H sk, spender)
           \<longrightarrow> allowance L' ow sp = allowance L ow sp)
     \<and> balances L' = balances L \<and> totalSupply L' = totalSupply L"
  by (auto simp: approve_def Let_def allowance_def split: option.splits)

lemma self_transfer_ok:
  assumes "amount \<le> balanceOf L (compute_address H sk)"
  shows "\<exists>L'. transfer H L sk (compute_address H sk) amount = Inr L'"
proof -
  let ?from = "compute_address H sk"
  have "unat (balanceOf L ?from - amount) + unat amount = unat (balanceOf L ?from)"
    using assms by (simp add: unat_sub word_le_nat_alt)
  moreover have "unat (balanceOf L ?from) < 2 ^ 222"
    using unsigned_less [of "balanceOf L ?from"] by simp
  ultimately show ?thesis
    using assms by (simp add: transfer_def Let_def balanceOf_def)
qed

lemma fmupd_same: "fmlookup m k = Some v \<Longrightarrow> fmupd k v m = m"
  by (rule fmap_ext) auto

lemma credit_bound:
  assumes inv: "sum_balances L \<le> unat (totalSupply L)"
    and ge: "amount \<le> balanceOf L from"
  shows "unat (balanceOf (L\<lparr>balances := fmupd from (balanceOf L from - amount) (balances L)\<rparr>) to)
           + unat amount \<le> unat (totalSupply L)"
proof -
  from ge have ge': "amount \<le> (case fmlookup (balances L) from of Some v \<Rightarrow> v | None \<Rightarrow> 0)"
    by (simp add: balanceOf_def)
  from debit_credit_fits [OF ge' refl, of to] inv
  show ?thesis
    by (simp del: fmupd_lookup add: balanceOf_def sum_balances_def)
qed

lemma transferFrom_no_overflow:
  assumes "sum_balances L \<le> unat (totalSupply L)"
  shows "transferFrom H L sk from to amount \<noteq> Inl ArithmeticOverflow"
proof
  assume ov: "transferFrom H L sk from to amount = Inl ArithmeticOverflow"
  let ?fb = "case fmlookup (balances L) from of Some v \<Rightarrow> v | None \<Rightarrow> 0"
  let ?m1 = "fmupd from (?fb - amount) (balances L)"
  have ge: "amount \<le> ?fb"
    using ov by (auto simp: transferFrom_def Let_def split: if_splits option.splits)
  have "\<not> unat (case fmlookup ?m1 to of Some v \<Rightarrow> v | None \<Rightarrow> 0) + unat amount < 2 ^ 222"
    using ov ge
    by (auto simp del: fmupd_lookup simp: transferFrom_def Let_def
        split: if_splits option.splits)
  moreover have "unat (case fmlookup ?m1 to of Some v \<Rightarrow> v | None \<Rightarrow> 0) + unat amount
      \<le> sum_values (balances L)"
    by (rule debit_credit_fits [OF ge refl])
  moreover have "unat (totalSupply L) < 2 ^ 222"
    using unsigned_less [of "totalSupply L"] by simp
  ultimately show False using assms by (simp add: sum_balances_def)
qed

lemma reachable_conserved:
  assumes "run H (constructor s m n sy d) cs = Inr L"
  shows "sum_balances L = unat (totalSupply L)"
  using run_conserves [OF assms] constructor_sum [of s m n sy d] by simp

lemma constructor_entry: "allowance_entry (constructor s m n sy d) ow sp = None"
  by (simp add: allowance_entry_def constructor_def default_ledger_def)

lemma apply_call_entry:
  assumes "apply_call H L c = Inr L'"
    and "\<not> approves H ow sp c"
    and "allowance_entry L ow sp = None"
  shows "allowance_entry L' ow sp = None"
proof (cases c)
  case (Pair sk op)
  show ?thesis
  proof (cases op)
    case (Transfer to amount)
    with Pair assms show ?thesis
      by (simp add: allowance_entry_def transfer_conserves(3))
  next
    case (Approve spender amount)
    with Pair assms show ?thesis
      by (auto simp: allowance_entry_def approve_def Let_def split: option.splits if_splits)
  next
    case (TransferFrom "from" to amount)
    with Pair assms have tf: "transferFrom H L sk from to amount = Inr L'" by simp
    from tf obtain inner a where
      inner: "fmlookup (allowances L) from = Some inner"
      and a: "fmlookup inner (compute_address H sk) = Some a"
      and al: "allowances L'
                 = fmupd from (fmupd (compute_address H sk) (a - amount) inner) (allowances L)"
      by (rule transferFrom_Inr) simp
    from assms(3) inner a show ?thesis
      by (auto simp: allowance_entry_def al split: option.splits)
  qed
qed

lemma run_entry:
  "run H L cs = Inr L' \<Longrightarrow> \<forall>c \<in> set cs. \<not> approves H ow sp c
     \<Longrightarrow> allowance_entry L ow sp = None \<Longrightarrow> allowance_entry L' ow sp = None"
proof (induction cs arbitrary: L)
  case Nil
  then show ?case by simp
next
  case (Cons c cs)
  then obtain L1 where 1: "apply_call H L c = Inr L1" and 2: "run H L1 cs = Inr L'"
    by (auto split: sum.splits)
  from Cons.prems have "\<not> approves H ow sp c" by simp
  from apply_call_entry [OF 1 this Cons.prems(3)] have "allowance_entry L1 ow sp = None" .
  with Cons.IH [OF 2] Cons.prems(2) show ?case by simp
qed

lemma no_entry_NoAllowanceSet:
  "allowance_entry L from (compute_address H sk) = None
     \<Longrightarrow> transferFrom H L sk from to amount = Inl NoAllowanceSet"
  by (auto simp: allowance_entry_def transferFrom_def split: option.splits)

lemma zero_transferFrom_ok:
  assumes "allowance_entry L from (compute_address H sk) \<noteq> None"
  shows "\<exists>L'. transferFrom H L sk from to 0 = Inr L'
           \<and> (\<forall>a. balanceOf L' a = balanceOf L a)
           \<and> (\<forall>ow sp. allowance L' ow sp = allowance L ow sp)"
proof -
  from assms obtain inner a where
    inner: "fmlookup (allowances L) from = Some inner"
    and a: "fmlookup inner (compute_address H sk) = Some a"
    by (auto simp: allowance_entry_def split: option.splits)
  have lt: "unat (balanceOf L x) < 2 ^ 222" for x
    using unsigned_less [of "balanceOf L x"] by simp
  let ?L' = "L\<lparr>allowances := fmupd from (fmupd (compute_address H sk) a inner) (allowances L),
       balances := fmupd to (balanceOf (L\<lparr>balances := fmupd from (balanceOf L from) (balances L)\<rparr>) to)
          (fmupd from (balanceOf L from) (balances L))\<rparr>"
  have ok: "transferFrom H L sk from to 0 = Inr ?L'"
    using lt [of to] lt [of "from"]
    by (simp add: transferFrom_def Let_def inner a balanceOf_def)
  have b: "balanceOf ?L' x = balanceOf L x" for x
    by (simp add: balanceOf_def)
  have al: "allowance ?L' ow sp = allowance L ow sp" for ow sp
    using inner a by (auto simp: allowance_def)
  from ok b al show ?thesis by blast
qed

lemma approve_entry:
  "approve H L sk spender amount = Inr L' \<Longrightarrow>
     allowance_entry L' ow sp =
       (if (ow, sp) = (compute_address H sk, spender) then Some amount
        else allowance_entry L ow sp)"
  by (auto simp: approve_def Let_def allowance_entry_def split: option.splits if_splits)







section \<open>Properties\<close>

text \<open>
  C8. The constructor yields a ledger whose total supply is the initial supply, in
  which the mint address holds the initial supply and every other address holds 0,
  with no allowance and with the given name, symbol and decimals.
\<close>

theorem constructor_postcondition:
  "totalSupply (constructor s m n sy d) = s
   \<and> getTotalSupply (constructor s m n sy d) = s
   \<and> balanceOf (constructor s m n sy d) m = s
   \<and> (\<forall>a. a \<noteq> m \<longrightarrow> balanceOf (constructor s m n sy d) a = 0)
   \<and> allowances (constructor s m n sy d) = fmempty
   \<and> tokenName (constructor s m n sy d) = n
   \<and> tokenSymbol (constructor s m n sy d) = sy
   \<and> tokenDecimals (constructor s m n sy d) = d"
  by (simp add: constructor_def default_ledger_def balanceOf_def getTotalSupply_def)

theorem constructor_postcondition_witness:
  "replicate 32 (2 :: 8 word) \<noteq> replicate 32 1
   \<and> totalSupply (constructor 1000 (replicate 32 1) ''TestToken'' ''TTK'' 18) = 1000
   \<and> balanceOf (constructor 1000 (replicate 32 1) ''TestToken'' ''TTK'' 18) (replicate 32 1) = 1000
   \<and> balanceOf (constructor 1000 (replicate 32 1) ''TestToken'' ''TTK'' 18) (replicate 32 2) = 0
   \<and> allowances (constructor 1000 (replicate 32 1) ''TestToken'' ''TTK'' 18) = fmempty"
  using constructor_postcondition [of 1000 "replicate 32 1" "''TestToken''" "''TTK''" 18]
  by (simp add: replicate_eq_replicate)

text \<open>
  C1. Conservation: from a ledger that the constructor produced, after every sequence
  of successful calls (transfer, transferFrom and approve, by any callers with any
  arguments), the sum of all values of the balances map equals the total supply.
\<close>

theorem conservation:
  "run H (constructor initial_supply mint_address name symbol decimals) cs = Inr L
   \<Longrightarrow> sum_balances L = unat (totalSupply L)"
  using run_conserves [of H "constructor initial_supply mint_address name symbol decimals" cs L]
    constructor_sum [of initial_supply mint_address name symbol decimals]
  by simp

theorem conservation_witness:
  "run last (constructor 1000 deployer ''TestToken'' ''TTK'' 18)
     [(deployer, Transfer recipient 300), (deployer, Approve spender0 400),
      (spender0, TransferFrom deployer spender0 250)]
   = Inr \<lparr>tokenName = ''TestToken'', tokenSymbol = ''TTK'', tokenDecimals = 18,
          totalSupply = 1000,
          balances = fmupd spender0 250 (fmupd deployer 450 (fmupd recipient 300 fmempty)),
          allowances = fmupd deployer (fmupd spender0 150 fmempty) fmempty\<rparr>
   \<and> sum_balances \<lparr>tokenName = ''TestToken'', tokenSymbol = ''TTK'', tokenDecimals = 18,
          totalSupply = 1000,
          balances = fmupd spender0 250 (fmupd deployer 450 (fmupd recipient 300 fmempty)),
          allowances = fmupd deployer (fmupd spender0 150 fmempty) fmempty\<rparr> = 1000"
proof -
  have r: "run last (constructor 1000 deployer ''TestToken'' ''TTK'' 18)
     [(deployer, Transfer recipient 300), (deployer, Approve spender0 400),
      (spender0, TransferFrom deployer spender0 250)]
   = Inr \<lparr>tokenName = ''TestToken'', tokenSymbol = ''TTK'', tokenDecimals = 18,
          totalSupply = 1000,
          balances = fmupd spender0 250 (fmupd deployer 450 (fmupd recipient 300 fmempty)),
          allowances = fmupd deployer (fmupd spender0 150 fmempty) fmempty\<rparr>"
    by (simp add: transfer_def approve_def transferFrom_def constructor_def default_ledger_def
        compute_address_def Let_def fmupd_reorder_neq [of deployer recipient])
  from conservation [OF r] r show ?thesis by simp
qed



text \<open>
  C3. transferFrom checks its preconditions in a fixed order, and the first that fails
  gives the error: no allowance entry for \<open>from\<close>, or none for the spender in the inner
  map, is \<open>NoAllowanceSet\<close>; otherwise an allowance below the amount is
  \<open>InsufficientAllowance\<close>; otherwise a balance of \<open>from\<close> (0 when absent) below the
  amount is \<open>InsufficientBalance\<close>; otherwise the call succeeds. The three failures
  hold in every ledger. Success holds in every ledger reached from the constructor by
  successful calls, and more generally in every ledger whose balances sum to at most
  the total supply: there the cast of the credited balance cannot fail.
\<close>

theorem transferFrom_check_order:
  "((fmlookup (allowances L) from = None
      \<or> (\<exists>inner. fmlookup (allowances L) from = Some inner
            \<and> fmlookup inner (compute_address H sk) = None))
     \<longrightarrow> transferFrom H L sk from to amount = Inl NoAllowanceSet)
   \<and> ((\<exists>inner a. fmlookup (allowances L) from = Some inner
            \<and> fmlookup inner (compute_address H sk) = Some a)
       \<and> allowance L from (compute_address H sk) < amount
     \<longrightarrow> transferFrom H L sk from to amount = Inl InsufficientAllowance)
   \<and> ((\<exists>inner a. fmlookup (allowances L) from = Some inner
            \<and> fmlookup inner (compute_address H sk) = Some a)
       \<and> amount \<le> allowance L from (compute_address H sk)
       \<and> balanceOf L from < amount
     \<longrightarrow> transferFrom H L sk from to amount = Inl InsufficientBalance)
   \<and> (run H (constructor s m n sy d) cs = Inr L
       \<and> (\<exists>inner a. fmlookup (allowances L) from = Some inner
            \<and> fmlookup inner (compute_address H sk) = Some a)
       \<and> amount \<le> allowance L from (compute_address H sk)
       \<and> amount \<le> balanceOf L from
     \<longrightarrow> (\<exists>L'. transferFrom H L sk from to amount = Inr L'))
   \<and> (sum_balances L \<le> unat (totalSupply L)
       \<and> (\<exists>inner a. fmlookup (allowances L) from = Some inner
            \<and> fmlookup inner (compute_address H sk) = Some a)
       \<and> amount \<le> allowance L from (compute_address H sk)
       \<and> amount \<le> balanceOf L from
     \<longrightarrow> (\<exists>L'. transferFrom H L sk from to amount = Inr L'))"
proof -
  let ?sp = "compute_address H sk"
  let ?entry = "\<exists>inner a. fmlookup (allowances L) from = Some inner
            \<and> fmlookup inner ?sp = Some a"
  let ?credit = "unat (balanceOf
              (L\<lparr>balances := fmupd from (balanceOf L from - amount) (balances L)\<rparr>) to)
            + unat amount"
  have 1: "transferFrom H L sk from to amount = Inl NoAllowanceSet"
    if "fmlookup (allowances L) from = None
      \<or> (\<exists>inner. fmlookup (allowances L) from = Some inner \<and> fmlookup inner ?sp = None)"
    using that by (auto simp: transferFrom_def)
  have 2: "transferFrom H L sk from to amount = Inl InsufficientAllowance"
    if "?entry \<and> allowance L from ?sp < amount"
    using that by (auto simp: transferFrom_def allowance_def)
  have 3: "transferFrom H L sk from to amount = Inl InsufficientBalance"
    if "?entry \<and> amount \<le> allowance L from ?sp \<and> balanceOf L from < amount"
    using that by (auto simp: transferFrom_def allowance_def balanceOf_def Let_def)
  have fits: "\<exists>L'. transferFrom H L sk from to amount = Inr L'"
    if "?entry \<and> amount \<le> allowance L from ?sp \<and> amount \<le> balanceOf L from
        \<and> ?credit < 2 ^ 222"
    using that
    by (auto simp del: fmupd_lookup simp: transferFrom_def allowance_def balanceOf_def Let_def)
  have 5: "\<exists>L'. transferFrom H L sk from to amount = Inr L'"
    if h: "sum_balances L \<le> unat (totalSupply L) \<and> ?entry
        \<and> amount \<le> allowance L from ?sp \<and> amount \<le> balanceOf L from"
  proof -
    have "unat (totalSupply L) < 2 ^ 222"
      using unsigned_less [of "totalSupply L"] by simp
    with credit_bound [of L amount "from" to] h have "?credit < 2 ^ 222"
      by simp
    with h show ?thesis by (intro fits) simp
  qed
  have 4: "\<exists>L'. transferFrom H L sk from to amount = Inr L'"
    if h: "run H (constructor s m n sy d) cs = Inr L \<and> ?entry
        \<and> amount \<le> allowance L from ?sp \<and> amount \<le> balanceOf L from"
  proof -
    from h reachable_conserved [of H s m n sy d cs L]
    have "sum_balances L \<le> unat (totalSupply L)" by simp
    with h show ?thesis by (intro 5) simp
  qed
  from 1 2 3 4 5 show ?thesis by blast
qed

theorem transferFrom_check_order_witness:
  "run last (constructor 1000 deployer ''TestToken'' ''TTK'' 18)
       [(deployer, Approve spender0 400)]
     = Inr \<lparr>tokenName = ''TestToken'', tokenSymbol = ''TTK'', tokenDecimals = 18,
            totalSupply = 1000, balances = fmupd deployer 1000 fmempty,
            allowances = fmupd deployer (fmupd spender0 400 fmempty) fmempty\<rparr>
   \<and> run last (constructor 1000 deployer ''TestToken'' ''TTK'' 18)
       [(deployer, Approve spender0 3000)]
     = Inr \<lparr>tokenName = ''TestToken'', tokenSymbol = ''TTK'', tokenDecimals = 18,
            totalSupply = 1000, balances = fmupd deployer 1000 fmempty,
            allowances = fmupd deployer (fmupd spender0 3000 fmempty) fmempty\<rparr>
   \<and> transferFrom last (constructor 1000 deployer ''TestToken'' ''TTK'' 18)
       spender0 deployer recipient 0 = Inl NoAllowanceSet
   \<and> transferFrom last \<lparr>tokenName = ''TestToken'', tokenSymbol = ''TTK'', tokenDecimals = 18,
            totalSupply = 1000, balances = fmupd deployer 1000 fmempty,
            allowances = fmupd deployer (fmupd spender0 400 fmempty) fmempty\<rparr> spender0 deployer recipient 2000 = Inl InsufficientAllowance
   \<and> transferFrom last \<lparr>tokenName = ''TestToken'', tokenSymbol = ''TTK'', tokenDecimals = 18,
            totalSupply = 1000, balances = fmupd deployer 1000 fmempty,
            allowances = fmupd deployer (fmupd spender0 3000 fmempty) fmempty\<rparr> spender0 deployer recipient 2000 = Inl InsufficientBalance
   \<and> (\<exists>L'. transferFrom last \<lparr>tokenName = ''TestToken'', tokenSymbol = ''TTK'', tokenDecimals = 18,
            totalSupply = 1000, balances = fmupd deployer 1000 fmempty,
            allowances = fmupd deployer (fmupd spender0 400 fmempty) fmempty\<rparr> spender0 deployer recipient 250 = Inr L')
   \<and> sum_balances \<lparr>tokenName = ''TestToken'', tokenSymbol = ''TTK'', tokenDecimals = 18,
            totalSupply = 1000, balances = fmupd deployer 1000 fmempty,
            allowances = fmupd deployer (fmupd spender0 400 fmempty) fmempty\<rparr> \<le> unat (totalSupply \<lparr>tokenName = ''TestToken'', tokenSymbol = ''TTK'', tokenDecimals = 18,
            totalSupply = 1000, balances = fmupd deployer 1000 fmempty,
            allowances = fmupd deployer (fmupd spender0 400 fmempty) fmempty\<rparr>)"
proof -
  let ?L0 = "constructor 1000 deployer ''TestToken'' ''TTK'' 18"
  let ?L1 = "\<lparr>tokenName = ''TestToken'', tokenSymbol = ''TTK'', tokenDecimals = 18,
            totalSupply = 1000, balances = fmupd deployer 1000 fmempty,
            allowances = fmupd deployer (fmupd spender0 400 fmempty) fmempty\<rparr>"
  let ?L2 = "\<lparr>tokenName = ''TestToken'', tokenSymbol = ''TTK'', tokenDecimals = 18,
            totalSupply = 1000, balances = fmupd deployer 1000 fmempty,
            allowances = fmupd deployer (fmupd spender0 3000 fmempty) fmempty\<rparr>"
  have r1: "run last ?L0 [(deployer, Approve spender0 400)] = Inr ?L1"
    by (simp add: approve_def constructor_def default_ledger_def compute_address_def)
  have r2: "run last ?L0 [(deployer, Approve spender0 3000)] = Inr ?L2"
    by (simp add: approve_def constructor_def default_ledger_def compute_address_def)
  have 1: "fmlookup (allowances ?L0) deployer = None
      \<or> (\<exists>inner. fmlookup (allowances ?L0) deployer = Some inner
            \<and> fmlookup inner (compute_address last spender0) = None)"
    by (simp add: constructor_def default_ledger_def)
  have e1: "\<exists>inner a. fmlookup (allowances ?L1) deployer = Some inner
            \<and> fmlookup inner (compute_address last spender0) = Some a"
    by (simp add: compute_address_def)
  have e2: "\<exists>inner a. fmlookup (allowances ?L2) deployer = Some inner
            \<and> fmlookup inner (compute_address last spender0) = Some a"
    by (simp add: compute_address_def)
  have 2: "allowance ?L1 deployer (compute_address last spender0) < 2000"
    by (simp add: allowance_def compute_address_def)
  have 3: "2000 \<le> allowance ?L2 deployer (compute_address last spender0)
       \<and> balanceOf ?L2 deployer < 2000"
    by (simp add: allowance_def balanceOf_def compute_address_def)
  have 4: "250 \<le> allowance ?L1 deployer (compute_address last spender0)
       \<and> 250 \<le> balanceOf ?L1 deployer"
    by (simp add: allowance_def balanceOf_def compute_address_def)
  have 5: "sum_balances ?L1 \<le> unat (totalSupply ?L1)"
    by (simp add: sum_balances_def sum_values_def balance_at_def)
  note t = transferFrom_check_order [where H = last and sk = spender0 and ?from = deployer
      and to = recipient]
  from t [THEN conjunct1, rule_format, OF 1]
    t [THEN conjunct2, THEN conjunct1, rule_format, OF conjI [OF e1 2]]
    t [THEN conjunct2, THEN conjunct2, THEN conjunct1, rule_format, OF conjI [OF e2 3]]
    t [THEN conjunct2, THEN conjunct2, THEN conjunct2, THEN conjunct1, rule_format,
       OF conjI [OF r1 conjI [OF e1 4]]]
    t [THEN conjunct2, THEN conjunct2, THEN conjunct2, THEN conjunct2, rule_format,
       OF conjI [OF 5 conjI [OF e1 4]]]
    r1 r2 5
  show ?thesis by blast
qed

text \<open>
  C4. When transferFrom succeeds and \<open>from \<noteq> to\<close>, the allowance of the spender for
  \<open>from\<close> and the balance of \<open>from\<close> have decreased by exactly the amount, and the
  balance of \<open>to\<close> has increased by exactly the amount (on the unsigned values, so
  without wrap-around). In particular, after approve(spender, 400) by the owner and a
  successful transferFrom(owner, to, 250) by the spender, the allowance is 150 and the
  balance of \<open>to\<close> is 250 higher.
\<close>

theorem transferFrom_postcondition:
  "(transferFrom H L sk from to amount = Inr L' \<and> from \<noteq> to
     \<longrightarrow> unat (allowance L' from (compute_address H sk)) + unat amount
           = unat (allowance L from (compute_address H sk))
         \<and> unat (balanceOf L' from) + unat amount = unat (balanceOf L from)
         \<and> unat (balanceOf L' to) = unat (balanceOf L to) + unat amount)
   \<and> (approve H L sk_owner (compute_address H sk) 400 = Inr L1
       \<and> transferFrom H L1 sk (compute_address H sk_owner) to 250 = Inr L2
       \<and> compute_address H sk_owner \<noteq> to
     \<longrightarrow> allowance L2 (compute_address H sk_owner) (compute_address H sk) = 150
         \<and> unat (balanceOf L2 to) = unat (balanceOf L1 to) + 250)"
proof -
  have 1: "unat (allowance L' from (compute_address H sk)) + unat amount
           = unat (allowance L from (compute_address H sk))
         \<and> unat (balanceOf L' from) + unat amount = unat (balanceOf L from)
         \<and> unat (balanceOf L' to) = unat (balanceOf L to) + unat amount"
    if "transferFrom H L sk from to amount = Inr L'" "from \<noteq> to"
    using that by (simp add: transferFrom_effect)
  have 2: "allowance L2 (compute_address H sk_owner) (compute_address H sk) = 150
         \<and> unat (balanceOf L2 to) = unat (balanceOf L1 to) + 250"
    if ap: "approve H L sk_owner (compute_address H sk) 400 = Inr L1"
      and tf: "transferFrom H L1 sk (compute_address H sk_owner) to 250 = Inr L2"
      and ne: "compute_address H sk_owner \<noteq> to"
  proof -
    let ?owner = "compute_address H sk_owner" and ?spender = "compute_address H sk"
    from ap approve_effect [of H L sk_owner ?spender 400]
    have al1: "allowance L1 ?owner ?spender = 400" by auto
    have "unat (allowance L2 ?owner ?spender) + unat (250 :: uint222)
            = unat (allowance L1 ?owner ?spender)"
      by (rule transferFrom_effect(1) [OF tf])
    then have "unat (allowance L2 ?owner ?spender) = unat (150 :: uint222)"
      by (simp add: al1)
    then have "allowance L2 ?owner ?spender = 150"
      by (simp only: word_unat_eq_iff)
    moreover from ne transferFrom_effect(3) [OF tf]
    have "unat (balanceOf L2 to) = unat (balanceOf L1 to) + 250" by simp
    ultimately show ?thesis by simp
  qed
  from 1 2 show ?thesis by blast
qed

theorem transferFrom_postcondition_witness:
  "approve last (constructor 1000 deployer ''TestToken'' ''TTK'' 18) deployer spender0 400
     = Inr \<lparr>tokenName = ''TestToken'', tokenSymbol = ''TTK'', tokenDecimals = 18,
            totalSupply = 1000, balances = fmupd deployer 1000 fmempty,
            allowances = fmupd deployer (fmupd spender0 400 fmempty) fmempty\<rparr>
   \<and> transferFrom last
        \<lparr>tokenName = ''TestToken'', tokenSymbol = ''TTK'', tokenDecimals = 18,
         totalSupply = 1000, balances = fmupd deployer 1000 fmempty,
         allowances = fmupd deployer (fmupd spender0 400 fmempty) fmempty\<rparr>
        spender0 deployer recipient 250
     = Inr \<lparr>tokenName = ''TestToken'', tokenSymbol = ''TTK'', tokenDecimals = 18,
            totalSupply = 1000,
            balances = fmupd recipient 250 (fmupd deployer 750 fmempty),
            allowances = fmupd deployer (fmupd spender0 150 fmempty) fmempty\<rparr>
   \<and> deployer \<noteq> recipient
   \<and> allowance
        \<lparr>tokenName = ''TestToken'', tokenSymbol = ''TTK'', tokenDecimals = 18,
         totalSupply = 1000,
         balances = fmupd recipient 250 (fmupd deployer 750 fmempty),
         allowances = fmupd deployer (fmupd spender0 150 fmempty) fmempty\<rparr>
        deployer spender0 = 150
   \<and> unat (balanceOf
        \<lparr>tokenName = ''TestToken'', tokenSymbol = ''TTK'', tokenDecimals = 18,
         totalSupply = 1000,
         balances = fmupd recipient 250 (fmupd deployer 750 fmempty),
         allowances = fmupd deployer (fmupd spender0 150 fmempty) fmempty\<rparr>
        recipient) = 250
   \<and> unat (balanceOf
        \<lparr>tokenName = ''TestToken'', tokenSymbol = ''TTK'', tokenDecimals = 18,
         totalSupply = 1000,
         balances = fmupd recipient 250 (fmupd deployer 750 fmempty),
         allowances = fmupd deployer (fmupd spender0 150 fmempty) fmempty\<rparr>
        deployer) + 250 = 1000"
proof -
  let ?L0 = "constructor 1000 deployer ''TestToken'' ''TTK'' 18"
  let ?L1 = "\<lparr>tokenName = ''TestToken'', tokenSymbol = ''TTK'', tokenDecimals = 18,
            totalSupply = 1000, balances = fmupd deployer 1000 fmempty,
            allowances = fmupd deployer (fmupd spender0 400 fmempty) fmempty\<rparr>"
  let ?L2 = "\<lparr>tokenName = ''TestToken'', tokenSymbol = ''TTK'', tokenDecimals = 18,
            totalSupply = 1000,
            balances = fmupd recipient 250 (fmupd deployer 750 fmempty),
            allowances = fmupd deployer (fmupd spender0 150 fmempty) fmempty\<rparr>"
  have ap: "approve last ?L0 deployer (compute_address last spender0) 400 = Inr ?L1"
    by (simp add: approve_def constructor_def default_ledger_def compute_address_def)
  have tf: "transferFrom last ?L1 spender0 (compute_address last deployer) recipient 250
              = Inr ?L2"
    by (simp add: transferFrom_def compute_address_def Let_def)
  have ne: "compute_address last deployer \<noteq> recipient"
    by (simp add: compute_address_def)
  have b1: "balanceOf ?L1 recipient = 0" "balanceOf ?L1 deployer = 1000"
    by (simp_all add: balanceOf_def)
  have ca: "compute_address last deployer = deployer" "compute_address last spender0 = spender0"
    by (simp_all add: compute_address_def)
  from transferFrom_postcondition [THEN conjunct2, rule_format, OF conjI [OF ap conjI [OF tf ne]]]
    transferFrom_postcondition [THEN conjunct1, rule_format, OF conjI [OF tf ne]]
    ap tf ne b1
  show ?thesis by (simp add: ca)
qed

text \<open>
  C5. approve succeeds on every input, and afterwards the allowance of the spender
  for the caller's address is the amount given, whatever it was before: approve with
  \<open>A\<close> and then approve with \<open>B\<close> by the same owner gives \<open>B\<close>. For every other
  pair of owner and spender the allowance, and the stored entry itself, is unchanged.
\<close>

theorem approve_sets_allowance:
  "\<exists>L1. approve H L sk spender A = Inr L1
     \<and> allowance L1 (compute_address H sk) spender = A
     \<and> (\<forall>ow sp. (ow, sp) \<noteq> (compute_address H sk, spender)
           \<longrightarrow> allowance L1 ow sp = allowance L ow sp
               \<and> allowance_entry L1 ow sp = allowance_entry L ow sp)
     \<and> (\<forall>sk'. compute_address H sk' = compute_address H sk
           \<longrightarrow> (\<exists>L2. approve H L1 sk' spender B = Inr L2
                  \<and> allowance L2 (compute_address H sk) spender = B
                  \<and> (\<forall>ow sp. (ow, sp) \<noteq> (compute_address H sk, spender)
                        \<longrightarrow> allowance L2 ow sp = allowance L ow sp
                            \<and> allowance_entry L2 ow sp = allowance_entry L ow sp)))"
proof -
  from approve_effect [of H L sk spender A] obtain L1 where
    1: "approve H L sk spender A = Inr L1"
      "allowance L1 (compute_address H sk) spender = A"
      "\<forall>ow sp. (ow, sp) \<noteq> (compute_address H sk, spender)
           \<longrightarrow> allowance L1 ow sp = allowance L ow sp"
    by blast
  have e1: "allowance_entry L1 ow sp = allowance_entry L ow sp"
    if "(ow, sp) \<noteq> (compute_address H sk, spender)" for ow sp
    using approve_entry [OF 1(1), of ow sp] that by auto
  have "\<exists>L2. approve H L1 sk' spender B = Inr L2
                  \<and> allowance L2 (compute_address H sk) spender = B
                  \<and> (\<forall>ow sp. (ow, sp) \<noteq> (compute_address H sk, spender)
                        \<longrightarrow> allowance L2 ow sp = allowance L ow sp
                            \<and> allowance_entry L2 ow sp = allowance_entry L ow sp)"
    if same: "compute_address H sk' = compute_address H sk" for sk'
  proof -
    from approve_effect [of H L1 sk' spender B] obtain L2 where
      2: "approve H L1 sk' spender B = Inr L2"
        "allowance L2 (compute_address H sk') spender = B"
        "\<forall>ow sp. (ow, sp) \<noteq> (compute_address H sk', spender)
           \<longrightarrow> allowance L2 ow sp = allowance L1 ow sp"
      by blast
    have e2: "allowance_entry L2 ow sp = allowance_entry L ow sp"
      if "(ow, sp) \<noteq> (compute_address H sk, spender)" for ow sp
      using approve_entry [OF 2(1), of ow sp] that same e1 [OF that] by auto
    from 2 same 1(3) e2 show ?thesis by auto
  qed
  with 1 e1 show ?thesis by blast
qed

theorem approve_sets_allowance_witness:
  "\<exists>L1 L2. approve last (constructor 1000 deployer ''TestToken'' ''TTK'' 18) deployer spender0 400
       = Inr L1
     \<and> compute_address last deployer = deployer
     \<and> approve last L1 deployer spender0 7 = Inr L2
     \<and> allowance L1 deployer spender0 = 400
     \<and> allowance L2 deployer spender0 = 7
     \<and> (deployer, recipient) \<noteq> (deployer, spender0)
     \<and> allowance L2 deployer recipient
         = allowance (constructor 1000 deployer ''TestToken'' ''TTK'' 18) deployer recipient"
proof -
  have ca: "compute_address last deployer = deployer"
    by (simp add: compute_address_def)
  have ne: "(deployer, recipient) \<noteq> (deployer, spender0)"
    by simp
  from approve_sets_allowance
    [of last "constructor 1000 deployer ''TestToken'' ''TTK'' 18" deployer spender0 400 7]
  show ?thesis
    unfolding ca using ca ne by blast
qed

text \<open>
  C6. Self-transfer: when the caller's balance is at least the amount, a transfer to
  the caller's own address succeeds and leaves that balance unchanged. A successful
  transferFrom with \<open>from = to\<close> leaves the balance of \<open>from\<close> unchanged and still
  lowers the spender's allowance by the amount.
\<close>

theorem self_transfer_identity:
  "(amount \<le> balanceOf L (compute_address H sk)
     \<longrightarrow> (\<exists>L'. transfer H L sk (compute_address H sk) amount = Inr L'
            \<and> balanceOf L' (compute_address H sk) = balanceOf L (compute_address H sk)))
   \<and> (transferFrom H L sk' a a amount = Inr L''
     \<longrightarrow> balanceOf L'' a = balanceOf L a
         \<and> unat (allowance L'' a (compute_address H sk')) + unat amount
             = unat (allowance L a (compute_address H sk')))"
proof -
  have 1: "\<exists>L'. transfer H L sk (compute_address H sk) amount = Inr L'
            \<and> balanceOf L' (compute_address H sk) = balanceOf L (compute_address H sk)"
    if "amount \<le> balanceOf L (compute_address H sk)"
  proof -
    from self_transfer_ok [OF that] obtain L' where
      ok: "transfer H L sk (compute_address H sk) amount = Inr L'" ..
    from transfer_effect(3) [OF ok] ok show ?thesis by simp
  qed
  have 2: "balanceOf L'' a = balanceOf L a
         \<and> unat (allowance L'' a (compute_address H sk')) + unat amount
             = unat (allowance L a (compute_address H sk'))"
    if "transferFrom H L sk' a a amount = Inr L''"
    using transferFrom_effect(1,4) [OF that] by simp
  from 1 2 show ?thesis by blast
qed

theorem self_transfer_identity_witness:
  "300 \<le> balanceOf (constructor 1000 deployer ''TestToken'' ''TTK'' 18)
            (compute_address last deployer)
   \<and> transfer last (constructor 1000 deployer ''TestToken'' ''TTK'' 18)
        deployer (compute_address last deployer) 300
       = Inr (constructor 1000 deployer ''TestToken'' ''TTK'' 18)
   \<and> transferFrom last
        ((constructor 1000 deployer ''TestToken'' ''TTK'' 18)
           \<lparr>allowances := fmupd deployer (fmupd spender0 400 fmempty) fmempty\<rparr>)
        spender0 deployer deployer 250
       = Inr ((constructor 1000 deployer ''TestToken'' ''TTK'' 18)
           \<lparr>allowances := fmupd deployer (fmupd spender0 150 fmempty) fmempty\<rparr>)
   \<and> balanceOf ((constructor 1000 deployer ''TestToken'' ''TTK'' 18)
           \<lparr>allowances := fmupd deployer (fmupd spender0 150 fmempty) fmempty\<rparr>) deployer
       = 1000"
proof -
  let ?L0 = "constructor 1000 deployer ''TestToken'' ''TTK'' 18"
  let ?L1 = "?L0\<lparr>allowances := fmupd deployer (fmupd spender0 400 fmempty) fmempty\<rparr>"
  let ?L2 = "?L0\<lparr>allowances := fmupd deployer (fmupd spender0 150 fmempty) fmempty\<rparr>"
  have h1: "300 \<le> balanceOf ?L0 (compute_address last deployer)"
    by (simp add: balanceOf_def constructor_def default_ledger_def compute_address_def)
  have h2: "transferFrom last ?L1 spender0 deployer deployer 250 = Inr ?L2"
    by (simp add: transferFrom_def constructor_def default_ledger_def compute_address_def
        Let_def)
  have t1: "transfer last ?L0 deployer (compute_address last deployer) 300 = Inr ?L0"
    by (simp add: transfer_def constructor_def default_ledger_def compute_address_def Let_def)
  have b: "balanceOf ?L1 deployer = 1000"
    by (simp add: balanceOf_def constructor_def default_ledger_def)
  from self_transfer_identity [THEN conjunct1, rule_format, OF h1]
    self_transfer_identity [THEN conjunct2, rule_format, OF h2] h1 h2 t1 b
  show ?thesis by simp
qed

text \<open>
  C7, as stated: a transfer of amount 0 succeeds and leaves the ledger unchanged. It
  does succeed, but both writes of the circuit still happen, so the balances map
  gains an entry with value 0 for the caller's address and for the recipient when
  they had none. After the constructor, a transfer of 0 by a caller that holds
  nothing, to a recipient that holds nothing, returns a different ledger.
\<close>

theorem zero_transfer_counterexample:
  "transfer last (constructor 1000 deployer ''TestToken'' ''TTK'' 18) spender0 recipient 0
     = Inr ((constructor 1000 deployer ''TestToken'' ''TTK'' 18)
             \<lparr>balances := fmupd recipient 0 (fmupd spender0 0 (fmupd deployer 1000 fmempty))\<rparr>)
   \<and> fmlookup (balances (constructor 1000 deployer ''TestToken'' ''TTK'' 18)) recipient = None
   \<and> fmlookup (balances ((constructor 1000 deployer ''TestToken'' ''TTK'' 18)
             \<lparr>balances := fmupd recipient 0 (fmupd spender0 0 (fmupd deployer 1000 fmempty))\<rparr>))
        recipient = Some 0
   \<and> transfer last (constructor 1000 deployer ''TestToken'' ''TTK'' 18) spender0 recipient 0
     \<noteq> Inr (constructor 1000 deployer ''TestToken'' ''TTK'' 18)"
proof -
  let ?L0 = "constructor 1000 deployer ''TestToken'' ''TTK'' 18"
  let ?L1 = "?L0\<lparr>balances := fmupd recipient 0 (fmupd spender0 0 (fmupd deployer 1000 fmempty))\<rparr>"
  have r: "transfer last ?L0 spender0 recipient 0 = Inr ?L1"
    by (simp add: transfer_def constructor_def default_ledger_def compute_address_def Let_def)
  have a: "fmlookup (balances ?L0) recipient = None"
    by (simp add: constructor_def default_ledger_def)
  have b: "fmlookup (balances ?L1) recipient = Some 0"
    by simp
  have "?L1 \<noteq> ?L0"
  proof
    assume "?L1 = ?L0"
    then have "fmlookup (balances ?L1) recipient = fmlookup (balances ?L0) recipient"
      by (rule arg_cong)
    with a b show False by simp
  qed
  with r a b show ?thesis by simp
qed

text \<open>
  C7, amended: for every ledger, caller and recipient, a transfer of amount 0 succeeds
  and leaves the total supply, the allowances, the metadata and the balance of every
  address as read by balanceOf unchanged. The balances map afterwards is the old one
  with the entries of the caller and the recipient written back (0 when absent): the
  ledger is unchanged when both already have an entry.
\<close>

theorem zero_transfer_observations:
  "\<exists>L'. transfer H L sk to 0 = Inr L'
     \<and> (\<forall>a. balanceOf L' a = balanceOf L a)
     \<and> totalSupply L' = totalSupply L
     \<and> allowances L' = allowances L
     \<and> tokenName L' = tokenName L
     \<and> tokenSymbol L' = tokenSymbol L
     \<and> tokenDecimals L' = tokenDecimals L
     \<and> balances L' = fmupd to (balanceOf L to)
          (fmupd (compute_address H sk) (balanceOf L (compute_address H sk)) (balances L))
     \<and> (fmlookup (balances L) (compute_address H sk) \<noteq> None
          \<and> fmlookup (balances L) to \<noteq> None \<longrightarrow> L' = L)"
proof -
  let ?from = "compute_address H sk"
  let ?L' = "L\<lparr>balances := fmupd to (balanceOf L to)
          (fmupd ?from (balanceOf L ?from) (balances L))\<rparr>"
  have lt: "unat (balanceOf L a) < 2 ^ 222" for a
    using unsigned_less [of "balanceOf L a"] by simp
  have ok: "transfer H L sk to 0 = Inr ?L'"
    using lt [of to] lt [of ?from]
    by (simp add: transfer_def Let_def balanceOf_def)
  have obs: "balanceOf ?L' a = balanceOf L a" for a
    by (simp add: balanceOf_def)
  have same: "?L' = L"
    if "fmlookup (balances L) ?from \<noteq> None \<and> fmlookup (balances L) to \<noteq> None"
  proof -
    from that obtain v w where v: "fmlookup (balances L) ?from = Some v"
      and w: "fmlookup (balances L) to = Some w" by auto
    have "fmupd ?from (balanceOf L ?from) (balances L) = balances L"
      by (rule fmupd_same) (simp add: balanceOf_def v)
    moreover have "fmupd to (balanceOf L to) (balances L) = balances L"
      by (rule fmupd_same) (simp add: balanceOf_def w)
    ultimately show ?thesis by simp
  qed
  from ok obs same show ?thesis by auto
qed

theorem zero_transfer_observations_witness:
  "fmlookup (balances (constructor 1000 deployer ''TestToken'' ''TTK'' 18))
      (compute_address last deployer) \<noteq> None
   \<and> fmlookup (balances (constructor 1000 deployer ''TestToken'' ''TTK'' 18)) deployer \<noteq> None
   \<and> transfer last (constructor 1000 deployer ''TestToken'' ''TTK'' 18) deployer deployer 0
       = Inr (constructor 1000 deployer ''TestToken'' ''TTK'' 18)"
proof -
  let ?L0 = "constructor 1000 deployer ''TestToken'' ''TTK'' 18"
  have h: "fmlookup (balances ?L0) (compute_address last deployer) \<noteq> None
      \<and> fmlookup (balances ?L0) deployer \<noteq> None"
    by (simp add: constructor_def default_ledger_def compute_address_def)
  from zero_transfer_observations [of last ?L0 deployer deployer] h
  show ?thesis by auto
qed

text \<open>
  C9. Overflow is unreachable: in every ledger whose balances sum to at most the total
  supply, once the balance check has passed, the balance of the recipient read after
  the debit plus the amount is at most the total supply, which is below \<open>2 ^ 222\<close>; so
  neither transfer nor transferFrom fails with \<open>ArithmeticOverflow\<close>. Every ledger
  reached from the constructor by successful calls is such a ledger.
\<close>

theorem overflow_unreachable:
  "(sum_balances L \<le> unat (totalSupply L)
     \<longrightarrow> (amount \<le> balanceOf L from
            \<longrightarrow> unat (balanceOf
                   (L\<lparr>balances := fmupd from (balanceOf L from - amount) (balances L)\<rparr>) to)
                  + unat amount \<le> unat (totalSupply L))
         \<and> unat (totalSupply L) < 2 ^ 222
         \<and> transfer H L sk to amount \<noteq> Inl ArithmeticOverflow
         \<and> transferFrom H L sk from to amount \<noteq> Inl ArithmeticOverflow)
   \<and> (run H (constructor s m n sy d) cs = Inr L
     \<longrightarrow> transfer H L sk to amount \<noteq> Inl ArithmeticOverflow
         \<and> transferFrom H L sk from to amount \<noteq> Inl ArithmeticOverflow)"
proof -
  have lt: "unat (totalSupply L) < 2 ^ 222"
    using unsigned_less [of "totalSupply L"] by simp
  have 1: "transfer H L sk to amount \<noteq> Inl ArithmeticOverflow
         \<and> transferFrom H L sk from to amount \<noteq> Inl ArithmeticOverflow"
    if "sum_balances L \<le> unat (totalSupply L)"
    using that by (simp add: transfer_no_overflow transferFrom_no_overflow)
  have 2: "sum_balances L \<le> unat (totalSupply L)"
    if "run H (constructor s m n sy d) cs = Inr L"
    using reachable_conserved [OF that] by simp
  from 1 2 lt credit_bound [of L amount "from" to] show ?thesis by blast
qed

theorem overflow_unreachable_witness:
  "sum_balances (constructor 1000 deployer ''TestToken'' ''TTK'' 18)
     \<le> unat (totalSupply (constructor 1000 deployer ''TestToken'' ''TTK'' 18))
   \<and> 300 \<le> balanceOf (constructor 1000 deployer ''TestToken'' ''TTK'' 18) deployer
   \<and> unat (balanceOf
        ((constructor 1000 deployer ''TestToken'' ''TTK'' 18)
           \<lparr>balances :=
              fmupd deployer
                (balanceOf (constructor 1000 deployer ''TestToken'' ''TTK'' 18) deployer - 300)
                (balances (constructor 1000 deployer ''TestToken'' ''TTK'' 18))\<rparr>)
        recipient) + unat (300 :: uint222)
      \<le> unat (totalSupply (constructor 1000 deployer ''TestToken'' ''TTK'' 18))
   \<and> transfer last (constructor 1000 deployer ''TestToken'' ''TTK'' 18) deployer recipient 300
      \<noteq> Inl ArithmeticOverflow
   \<and> run last (constructor 1000 deployer ''TestToken'' ''TTK'' 18)
        [(deployer, Transfer recipient 300)]
      = Inr \<lparr>tokenName = ''TestToken'', tokenSymbol = ''TTK'', tokenDecimals = 18,
             totalSupply = 1000,
             balances = fmupd recipient 300 (fmupd deployer 700 fmempty),
             allowances = fmempty\<rparr>
   \<and> transferFrom last
        \<lparr>tokenName = ''TestToken'', tokenSymbol = ''TTK'', tokenDecimals = 18,
         totalSupply = 1000,
         balances = fmupd recipient 300 (fmupd deployer 700 fmempty),
         allowances = fmempty\<rparr>
        spender0 deployer recipient 700 \<noteq> Inl ArithmeticOverflow"
proof -
  let ?L0 = "constructor 1000 deployer ''TestToken'' ''TTK'' 18"
  let ?Lx = "\<lparr>tokenName = ''TestToken'', tokenSymbol = ''TTK'', tokenDecimals = 18,
             totalSupply = 1000,
             balances = fmupd recipient 300 (fmupd deployer 700 fmempty),
             allowances = fmempty\<rparr>"
  have inv: "sum_balances ?L0 \<le> unat (totalSupply ?L0)"
    by (simp add: sum_balances_def sum_values_def balance_at_def constructor_def
        default_ledger_def)
  have ge: "300 \<le> balanceOf ?L0 deployer"
    by (simp add: balanceOf_def constructor_def default_ledger_def)
  have r: "run last ?L0 [(deployer, Transfer recipient 300)] = Inr ?Lx"
    by (simp add: transfer_def constructor_def default_ledger_def compute_address_def Let_def)
  from overflow_unreachable [where L = ?L0 and amount = 300 and H = last and sk = deployer
      and ?from = deployer and to = recipient, THEN conjunct1, rule_format, OF inv]
    overflow_unreachable [where L = ?Lx and amount = 700 and H = last and sk = spender0
      and ?from = deployer and to = recipient, THEN conjunct2, rule_format, OF r]
    inv ge r
  show ?thesis by simp
qed

text \<open>
  C10. An allowance of 0 that was approved differs from no allowance. In a ledger
  reached from the constructor by calls among which the owner never approved the
  spender, transferFrom(owner, to, 0) by the spender fails with \<open>NoAllowanceSet\<close>.
  After approve(spender, 0) by the owner the same call succeeds, and the balance of
  every address and the allowance of every pair are the same after it as before it.
\<close>

theorem zero_allowance_distinct:
  "(run H (constructor s m n sy d) cs = Inr L
      \<and> (\<forall>c \<in> set cs. \<not> approves H owner (compute_address H sk) c)
     \<longrightarrow> transferFrom H L sk owner to 0 = Inl NoAllowanceSet)
   \<and> (compute_address H sk_owner = owner
     \<longrightarrow> (\<exists>L1 L2. approve H L sk_owner (compute_address H sk) 0 = Inr L1
            \<and> transferFrom H L1 sk owner to 0 = Inr L2
            \<and> (\<forall>a. balanceOf L2 a = balanceOf L1 a)
            \<and> (\<forall>ow sp. allowance L2 ow sp = allowance L1 ow sp)))"
proof -
  have 1: "transferFrom H L sk owner to 0 = Inl NoAllowanceSet"
    if "run H (constructor s m n sy d) cs = Inr L"
      "\<forall>c \<in> set cs. \<not> approves H owner (compute_address H sk) c"
    using run_entry [OF that constructor_entry] by (rule no_entry_NoAllowanceSet)
  have 2: "\<exists>L1 L2. approve H L sk_owner (compute_address H sk) 0 = Inr L1
            \<and> transferFrom H L1 sk owner to 0 = Inr L2
            \<and> (\<forall>a. balanceOf L2 a = balanceOf L1 a)
            \<and> (\<forall>ow sp. allowance L2 ow sp = allowance L1 ow sp)"
    if own: "compute_address H sk_owner = owner"
  proof -
    obtain L1 where ap: "approve H L sk_owner (compute_address H sk) 0 = Inr L1"
      using approve_effect [of H L sk_owner "compute_address H sk" 0] by blast
    then have "allowance_entry L1 owner (compute_address H sk) \<noteq> None"
      using own
      by (auto simp: approve_def Let_def allowance_entry_def split: option.splits if_splits)
    from zero_transferFrom_ok [OF this, of to] ap show ?thesis by blast
  qed
  from 1 2 show ?thesis by blast
qed

theorem zero_allowance_distinct_witness:
  "run last (constructor 1000 deployer ''TestToken'' ''TTK'' 18)
     [(deployer, Transfer recipient 300), (deployer, Approve recipient 5)]
     = Inr \<lparr>tokenName = ''TestToken'', tokenSymbol = ''TTK'', tokenDecimals = 18,
            totalSupply = 1000,
            balances = fmupd recipient 300 (fmupd deployer 700 fmempty),
            allowances = fmupd deployer (fmupd recipient 5 fmempty) fmempty\<rparr>
   \<and> \<not> approves last deployer (compute_address last spender0)
         (deployer, Transfer recipient 300)
   \<and> \<not> approves last deployer (compute_address last spender0)
         (deployer, Approve recipient 5)
   \<and> transferFrom last
        \<lparr>tokenName = ''TestToken'', tokenSymbol = ''TTK'', tokenDecimals = 18,
         totalSupply = 1000,
         balances = fmupd recipient 300 (fmupd deployer 700 fmempty),
         allowances = fmupd deployer (fmupd recipient 5 fmempty) fmempty\<rparr>
        spender0 deployer recipient 0 = Inl NoAllowanceSet
   \<and> compute_address last deployer = deployer
   \<and> (\<exists>L1 L2.
        approve last
          \<lparr>tokenName = ''TestToken'', tokenSymbol = ''TTK'', tokenDecimals = 18,
           totalSupply = 1000,
           balances = fmupd recipient 300 (fmupd deployer 700 fmempty),
           allowances = fmupd deployer (fmupd recipient 5 fmempty) fmempty\<rparr>
          deployer (compute_address last spender0) 0 = Inr L1
        \<and> transferFrom last L1 spender0 deployer recipient 0 = Inr L2
        \<and> (\<forall>a. balanceOf L2 a = balanceOf L1 a)
        \<and> (\<forall>ow sp. allowance L2 ow sp = allowance L1 ow sp))"
proof -
  let ?L0 = "constructor 1000 deployer ''TestToken'' ''TTK'' 18"
  let ?cs = "[(deployer, Transfer recipient 300), (deployer, Approve recipient 5)]"
  let ?Lx = "\<lparr>tokenName = ''TestToken'', tokenSymbol = ''TTK'', tokenDecimals = 18,
            totalSupply = 1000,
            balances = fmupd recipient 300 (fmupd deployer 700 fmempty),
            allowances = fmupd deployer (fmupd recipient 5 fmempty) fmempty\<rparr>"
  have r: "run last ?L0 ?cs = Inr ?Lx"
    by (simp add: transfer_def approve_def constructor_def default_ledger_def
        compute_address_def Let_def)
  have na: "\<forall>c \<in> set ?cs. \<not> approves last deployer (compute_address last spender0) c"
    by (simp add: compute_address_def)
  have own: "compute_address last deployer = deployer"
    by (simp add: compute_address_def)
  from zero_allowance_distinct [where H = last and L = ?Lx and sk = spender0
      and owner = deployer and to = recipient, THEN conjunct1, rule_format, OF conjI [OF r na]]
    zero_allowance_distinct [where H = last and L = ?Lx and sk = spender0
      and owner = deployer and to = recipient and sk_owner = deployer,
      THEN conjunct2, rule_format, OF own]
    r na own
  show ?thesis by simp
qed

end
